theory Spec2Isabelle
  imports Complex_Main
begin

section \<open>Python strings\<close>

text \<open>
  A Python \<open>str\<close> is a sequence of Unicode code points. It is modelled as a list of
  natural numbers, one per code point, so that the whitespace and line-break tables of
  CPython can be written out in full. \<open>U\<close> turns an ASCII literal into such a list.
\<close>

type_synonym ustring = "nat list"

definition U :: "string \<Rightarrow> ustring" where
  "U s = map of_char s"

text \<open>\<open>sep.join(parts)\<close>.\<close>

fun join :: "ustring \<Rightarrow> ustring list \<Rightarrow> ustring" where
  "join sep [] = []"
| "join sep [x] = x"
| "join sep (x # y # ys) = x @ sep @ join sep (y # ys)"

text \<open>
  \<open>str(n)\<close> and \<open>f"{n}"\<close> for an \<open>int\<close>: decimal digits, most significant first,
  no padding, a leading minus sign for a negative number.
\<close>

fun str_nat :: "nat \<Rightarrow> ustring" where
  "str_nat n = (if n < 10 then [48 + n] else str_nat (n div 10) @ [48 + n mod 10])"

definition str_int :: "int \<Rightarrow> ustring" where
  "str_int i = (if i < 0 then 45 # str_nat (nat (- i)) else str_nat (nat i))"

section \<open>The random module\<close>

text \<open>
  The Mersenne Twister is not modelled. The state of the generator is the sequence of
  raw outcomes still to be drawn; \<open>randbelow n\<close> consumes the next one and reduces it
  modulo \<open>n\<close> (an exhausted sequence yields 0), so every outcome in \<open>[0, n)\<close> arises
  from some state and every function below is a deterministic function of the state,
  in the order in which the source calls the library.
\<close>

type_synonym rng = "nat list"

definition randbelow :: "nat \<Rightarrow> rng \<Rightarrow> nat \<times> rng" where
  "randbelow n g = (case g of [] \<Rightarrow> (0, []) | x # g' \<Rightarrow> (x mod n, g'))"

text \<open>
  \<open>random.choice(seq)\<close> is \<open>seq[randbelow(len(seq))]\<close>. It raises IndexError on an empty
  sequence; every sequence the generator passes is a non-empty constant.
\<close>

definition random_choice :: "'a list \<Rightarrow> rng \<Rightarrow> 'a \<times> rng" where
  "random_choice seq g = (let (i, g') = randbelow (length seq) g in (seq ! i, g'))"

text \<open>\<open>random.randint(a, b)\<close> is \<open>a + randbelow(b - a + 1)\<close>.\<close>

definition random_randint :: "int \<Rightarrow> int \<Rightarrow> rng \<Rightarrow> int \<times> rng" where
  "random_randint a b g = (let (i, g') = randbelow (nat (b - a + 1)) g in (a + int i, g'))"

text \<open>
  \<open>random.random()\<close> returns a double \<open>k / 2^53\<close> with \<open>0 \<le> k < 2^53\<close>. Such a double is
  an exact rational, and so is every double literal it is compared with below.
\<close>

definition random_random :: "rng \<Rightarrow> real \<times> rng" where
  "random_random g = (let (k, g') = randbelow (2 ^ 53) g in (real k / 2 ^ 53, g'))"

text \<open>The doubles denoted by the literals \<open>0.2\<close>, \<open>0.6\<close> and \<open>0.85\<close>.\<close>

definition float_0_2 :: real where
  "float_0_2 = 7205759403792794 / 2 ^ 55"

definition float_0_6 :: real where
  "float_0_6 = 5404319552844595 / 2 ^ 53"

definition float_0_85 :: real where
  "float_0_85 = 7656119366529843 / 2 ^ 53"

text \<open>
  \<open>random.sample(population, k)\<close> for a population of at most 21 elements: \<open>k\<close> times,
  draw an index into the pool of elements not yet selected, take that element and move
  the last element of the pool into the vacancy.
\<close>

fun sample_loop :: "'a list \<Rightarrow> nat \<Rightarrow> rng \<Rightarrow> 'a list \<times> rng" where
  "sample_loop pool 0 g = ([], g)"
| "sample_loop pool (Suc k) g =
     (let n = length pool;
          (j, g1) = randbelow n g;
          x = pool ! j;
          pool' = take (n - 1) (pool[j := pool ! (n - 1)]);
          (rest, g2) = sample_loop pool' k g1
      in (x # rest, g2))"

definition random_sample :: "'a list \<Rightarrow> nat \<Rightarrow> rng \<Rightarrow> 'a list \<times> rng" where
  "random_sample population k g = sample_loop population k g"

section \<open>generate_full_note_calendar.py\<close>

definition TZ_CHOICES :: "ustring list" where
  "TZ_CHOICES =
     [U ''Europe/Budapest'', U ''America/New_York'', U ''Europe/London'',
      U ''Asia/Tokyo'', U ''Australia/Sydney'']"

definition CATEGORIES :: "(ustring \<times> ustring list) list" where
  "CATEGORIES =
     [(U ''Work'', [U ''Project Alpha'', U ''Project Beta'', U ''Team'', U ''Clients'']),
      (U ''Personal'', [U ''Health'', U ''Family'', U ''Finance'', U ''Hobby'']),
      (U ''Fitness'', [U ''Running'', U ''Gym'', U ''Yoga'']),
      (U ''Learning'', [U ''Course'', U ''Reading'', U ''Practice'']),
      (U ''Errands'', [U ''Shopping'', U ''Home'', U ''Car''])]"

definition TITLE_TAILS :: "ustring list" where
  "TITLE_TAILS =
     [U ''Sprint Planning'', U ''Daily Standup'', U ''1:1'', U ''Client Call'',
      U ''Design Session'', U ''Code Review'', U ''Deep Work'', U ''Workshop'',
      U ''Brainstorm'', U ''Morning Run'', U ''Gym Session'', U ''Yoga Flow'',
      U ''Study Block'', U ''Reading'', U ''Grocery Run'']"

definition DOW :: "ustring list" where
  "DOW = [U ''U'', U ''M'', U ''T'', U ''W'', U ''R'', U ''F'', U ''S'']"

text \<open>
  \<open>build_constructed_title\<close>: \<open>category\<close> and \<open>sub\<close> are \<open>Optional[str]\<close>, and the tests
  \<open>if category and sub\<close>, \<open>if category\<close> are truth tests: None and the empty string are
  false.
\<close>

definition truthy_str :: "ustring option \<Rightarrow> bool" where
  "truthy_str s = (case s of None \<Rightarrow> False | Some x \<Rightarrow> x \<noteq> [])"

definition build_constructed_title ::
  "ustring option \<Rightarrow> ustring option \<Rightarrow> ustring \<Rightarrow> ustring" where
  "build_constructed_title category sub title =
     (if truthy_str category \<and> truthy_str sub
        then the category @ U '' - '' @ the sub @ U '' - '' @ title
      else if truthy_str category
        then the category @ U '' - '' @ title
      else title)"

text \<open>
  \<open>pick_category\<close>: a key of CATEGORIES, then an element of the list stored under it.
\<close>

definition pick_category :: "rng \<Rightarrow> (ustring \<times> ustring) \<times> rng" where
  "pick_category g =
     (let (cat, g1) = random_choice (map fst CATEGORIES) g;
          (sub, g2) = random_choice (the (map_of CATEGORIES cat)) g1
      in ((cat, sub), g2))"

record date =
  d_year :: int
  d_month :: int
  d_day :: int

record SingleEvent =
  se_date :: date
  se_all_day :: bool
  se_start :: "int option"
  se_end :: "int option"
  se_tz :: ustring
  se_category :: "ustring option"
  se_subcategory :: "ustring option"
  se_title :: ustring

record RecurringEvent =
  re_days_of_week :: "ustring list option"
  re_month :: "int option"
  re_day_of_month :: "int option"
  re_start_time :: "int option"
  re_end_time :: "int option"
  re_tz :: ustring
  re_category :: "ustring option"
  re_subcategory :: "ustring option"
  re_title :: ustring

definition gen_single_event :: "date \<Rightarrow> rng \<Rightarrow> SingleEvent \<times> rng" where
  "gen_single_event d g0 =
     (let (tz, g1) = random_choice TZ_CHOICES g0;
          ((category, sub), g2) = pick_category g1;
          (tail, g3) = random_choice TITLE_TAILS g2;
          title = tail;
          (r, g4) = random_random g3
      in if r < float_0_2
         then (\<lparr>se_date = d, se_all_day = True, se_start = None, se_end = None,
                se_tz = tz, se_category = Some category, se_subcategory = Some sub,
                se_title = title\<rparr>, g4)
         else
           (let (start_of_day, g5) = random_randint (7 * 60) (10 * 60) g4;
                (offset, g6) = random_choice [0, 15, 30, 45, 60, 90, 120] g5;
                start = start_of_day + offset;
                (dur, g7) = random_choice [30, 45, 60, 75, 90, 120, 150] g6;
                end_min = min (start + dur) (22 * 60)
            in (\<lparr>se_date = d, se_all_day = False, se_start = Some start,
                  se_end = Some end_min, se_tz = tz, se_category = Some category,
                  se_subcategory = Some sub, se_title = title\<rparr>, g7)))"

definition gen_recurring_event :: "rng \<Rightarrow> RecurringEvent \<times> rng" where
  "gen_recurring_event g0 =
     (let (tz, g1) = random_choice TZ_CHOICES g0;
          ((category, sub), g2) = pick_category g1;
          (tail, g3) = random_choice TITLE_TAILS g2;
          title = tail;
          (r, g4) = random_random g3
      in if r < float_0_6
         then
           (let (k, g5) = random_randint 1 3 g4;
                (days, g6) = random_sample (take 5 (drop 1 DOW)) (nat k) g5;
                (start, g7) = random_randint (8 * 60) (11 * 60) g6;
                (dur, g8) = random_choice [30, 45, 60, 90] g7;
                end_min = start + dur
            in (\<lparr>re_days_of_week = Some days, re_month = None, re_day_of_month = None,
                  re_start_time = Some start, re_end_time = Some end_min, re_tz = tz,
                  re_category = Some category, re_subcategory = Some sub,
                  re_title = title\<rparr>, g8))
         else if r < float_0_85
         then
           (let (dom, g5) = random_randint 1 28 g4;
                (start, g6) = random_randint (18 * 60) (20 * 60) g5;
                (dur, g7) = random_choice [60, 90, 120] g6;
                end_min = start + dur
            in (\<lparr>re_days_of_week = None, re_month = None, re_day_of_month = Some dom,
                  re_start_time = Some start, re_end_time = Some end_min, re_tz = tz,
                  re_category = Some category, re_subcategory = Some sub,
                  re_title = title\<rparr>, g7))
         else
           (let (month, g5) = random_randint 1 12 g4;
                (dom, g6) = random_randint 1 28 g5;
                (start, g7) = random_randint (9 * 60) (17 * 60) g6;
                (dur, g8) = random_choice [60, 90, 120] g7;
                end_min = start + dur
            in (\<lparr>re_days_of_week = None, re_month = Some month, re_day_of_month = Some dom,
                  re_start_time = Some start, re_end_time = Some end_min, re_tz = tz,
                  re_category = Some category, re_subcategory = Some sub,
                  re_title = title\<rparr>, g8)))"

text \<open>
  \<open>calendar.month_abbr\<close>: a sequence of 13 entries, the empty string at index 0 and the
  abbreviated month names at 1 to 12, indexed like a list (a negative index counts
  from the end, an index out of range raises IndexError). The names are those of the
  C locale: the program never calls \<open>setlocale\<close>.
\<close>

datatype error = IndexError | ValueError | OSError ustring

definition month_names :: "ustring list" where
  "month_names =
     [U ''Jan'', U ''Feb'', U ''Mar'', U ''Apr'', U ''May'', U ''Jun'',
      U ''Jul'', U ''Aug'', U ''Sep'', U ''Oct'', U ''Nov'', U ''Dec'']"

definition month_abbr :: "int \<Rightarrow> error + ustring" where
  "month_abbr i =
     (let names = [] # month_names;
          n = int (length names);
          j = (if i < 0 then n + i else i)
      in if 0 \<le> j \<and> j < n then Inr (names ! nat j) else Inl IndexError)"

text \<open>Truth tests of an \<open>Optional[List[str]]\<close> and of an \<open>Optional[int]\<close>.\<close>

definition truthy_list :: "'a list option \<Rightarrow> bool" where
  "truthy_list xs = (case xs of None \<Rightarrow> False | Some l \<Rightarrow> l \<noteq> [])"

definition truthy_int :: "int option \<Rightarrow> bool" where
  "truthy_int i = (case i of None \<Rightarrow> False | Some n \<Rightarrow> n \<noteq> 0)"

text \<open>
  The file name computed by \<open>write_recurring\<close> (lines 188 to 204); the rest of the
  function writes the note under that name. The lookup in \<open>calendar.month_abbr\<close> is
  the only step that can raise.
\<close>

definition write_recurring_filename :: "RecurringEvent \<Rightarrow> error + ustring" where
  "write_recurring_filename ev =
     (let constructed_title =
            build_constructed_title (re_category ev) (re_subcategory ev) (re_title ev)
      in if truthy_list (re_days_of_week ev) then
           Inr ((U ''(Every '' @ join (U '','') (the (re_days_of_week ev)) @ U '') '' @
                 constructed_title) @ U ''.md'')
         else if truthy_int (re_month ev) \<and> truthy_int (re_day_of_month ev) then
           (case month_abbr (the (re_month ev)) of
              Inl e \<Rightarrow> Inl e
            | Inr mon_name \<Rightarrow>
                Inr ((U ''(Every year on '' @ mon_name @ U '' '' @
                      str_int (the (re_day_of_month ev)) @ U '') '' @ constructed_title) @
                     U ''.md''))
         else if truthy_int (re_day_of_month ev) then
           Inr ((U ''(Every month on the '' @ str_int (the (re_day_of_month ev)) @ U '') '' @
                 constructed_title) @ U ''.md'')
         else Inr ((U ''(Recurring) '' @ constructed_title) @ U ''.md''))"

section \<open>fullnote-to-dailynote-converter.py\<close>

subsection \<open>String methods\<close>

text \<open>
  The code points for which \<open>str.isspace\<close> holds; \<open>\s\<close> in a \<open>str\<close> pattern and
  \<open>str.strip()\<close> use the same table.
\<close>

definition is_space :: "nat \<Rightarrow> bool" where
  "is_space c =
     (c \<in> set [9, 10, 11, 12, 13, 28, 29, 30, 31, 32, 133, 160, 5760,
               8232, 8233, 8239, 8287, 12288] \<or> (8192 \<le> c \<and> c \<le> 8202))"

text \<open>The line boundaries of \<open>str.splitlines\<close>.\<close>

definition is_linebreak :: "nat \<Rightarrow> bool" where
  "is_linebreak c = (c \<in> set [10, 11, 12, 13, 28, 29, 30, 133, 8232, 8233])"

definition strip :: "ustring \<Rightarrow> ustring" where
  "strip s = rev (dropWhile is_space (rev (dropWhile is_space s)))"

definition startswith :: "ustring \<Rightarrow> ustring \<Rightarrow> bool" where
  "startswith s p = (take (length p) s = p)"

text \<open>
  \<open>s.splitlines()\<close>: a line ends at a line boundary, \<open>\r\n\<close> counts as one boundary,
  and a boundary at the very end opens no further line. \<open>cur\<close> holds the current line,
  reversed.
\<close>

fun splitlines_from :: "ustring \<Rightarrow> ustring \<Rightarrow> ustring list" where
  "splitlines_from cur [] = (if cur = [] then [] else [rev cur])"
| "splitlines_from cur [c] = (if is_linebreak c then [rev cur] else [rev (c # cur)])"
| "splitlines_from cur (c # d # cs) =
     (if c = 13 \<and> d = 10 then rev cur # splitlines_from [] cs
      else if is_linebreak c then rev cur # splitlines_from [] (d # cs)
      else splitlines_from (c # cur) (d # cs))"

definition splitlines :: "ustring \<Rightarrow> ustring list" where
  "splitlines s = splitlines_from [] s"

text \<open>\<open>line.split(":", 1)\<close>, for a one-character separator.\<close>

definition split1 :: "nat \<Rightarrow> ustring \<Rightarrow> ustring list" where
  "split1 sep s =
     (if sep \<in> set s
      then [takeWhile (\<lambda>c. c \<noteq> sep) s, tl (dropWhile (\<lambda>c. c \<noteq> sep) s)]
      else [s])"

subsection \<open>Dictionaries\<close>

text \<open>
  A \<open>dict\<close> keeps its keys in insertion order; storing under an existing key replaces
  the value in place.
\<close>

type_synonym ('k, 'v) dict = "('k \<times> 'v) list"

fun dict_set :: "'k \<Rightarrow> 'v \<Rightarrow> ('k, 'v) dict \<Rightarrow> ('k, 'v) dict" where
  "dict_set k v [] = [(k, v)]"
| "dict_set k v ((k', v') # kvs) =
     (if k = k' then (k, v) # kvs else (k', v') # dict_set k v kvs)"

definition dict_get :: "('k, 'v) dict \<Rightarrow> 'k \<Rightarrow> 'v option" where
  "dict_get d k = map_of d k"

definition dict_get_default :: "('k, 'v) dict \<Rightarrow> 'k \<Rightarrow> 'v \<Rightarrow> 'v" where
  "dict_get_default d k dflt = (case map_of d k of None \<Rightarrow> dflt | Some v \<Rightarrow> v)"

subsection \<open>extract_frontmatter\<close>

text \<open>
  \<open>re.match(r"^---\s*\n(.*?)\n---\s*", text, re.DOTALL)\<close>, by the backtracking order of
  the \<open>re\<close> module.

  \<open>find_close s\<close> is the lazy group \<open>(.*?)\<close> followed by \<open>\n---\<close>, tried at the start
  of \<open>s\<close>: the group grows one character at a time until \<open>\n---\<close> follows it. The result
  is the group and what follows the \<open>\n---\<close>.
\<close>

fun find_close :: "ustring \<Rightarrow> (ustring \<times> ustring) option" where
  "find_close [] = None"
| "find_close (c # cs) =
     (if startswith (c # cs) (10 # U ''---'') then Some ([], drop 4 (c # cs))
      else map_option (\<lambda>(g, rest). (c # g, rest)) (find_close cs))"

text \<open>
  \<open>try_open k r\<close> is the greedy \<open>\s*\<close> followed by \<open>\n\<close>, on the text \<open>r\<close> after the
  opening \<open>---\<close>: \<open>\s*\<close> first takes all \<open>k\<close> whitespace characters and gives them back
  one at a time; each time a \<open>\n\<close> follows what it kept, the rest of the pattern is
  tried there, and the first success is the match.
\<close>

fun try_open :: "nat \<Rightarrow> ustring \<Rightarrow> (ustring \<times> ustring) option" where
  "try_open 0 r =
     (if 0 < length r \<and> r ! 0 = 10 then find_close (drop 1 r) else None)"
| "try_open (Suc k) r =
     (case (if Suc k < length r \<and> r ! Suc k = 10 then find_close (drop (Suc (Suc k)) r)
            else None) of
        Some m \<Rightarrow> Some m
      | None \<Rightarrow> try_open k r)"

text \<open>
  The match, if any, as the pair of \<open>match.group(1)\<close> and \<open>text[match.end():]\<close>; the
  final greedy \<open>\s*\<close> takes all the whitespace after the closing \<open>---\<close>.
\<close>

definition re_match_frontmatter :: "ustring \<Rightarrow> (ustring \<times> ustring) option" where
  "re_match_frontmatter text =
     (if startswith text (U ''---'')
      then (let r = drop 3 text
            in case try_open (length (takeWhile is_space r)) r of
                 None \<Rightarrow> None
               | Some (g, rest) \<Rightarrow> Some (g, dropWhile is_space rest))
      else None)"

type_synonym frontmatter = "(ustring, ustring) dict"

text \<open>
  The loop over the lines of the block. The unpacking \<open>key, value = line.split(":", 1)\<close>
  raises ValueError unless the split has exactly two parts.
\<close>

fun parse_lines :: "ustring list \<Rightarrow> frontmatter \<Rightarrow> error + frontmatter" where
  "parse_lines [] fm = Inr fm"
| "parse_lines (line # lines) fm =
     (if 58 \<in> set line
      then (case split1 58 line of
              [key, value] \<Rightarrow> parse_lines lines (dict_set (strip key) (strip value) fm)
            | _ \<Rightarrow> Inl ValueError)
      else parse_lines lines fm)"

definition extract_frontmatter :: "ustring \<Rightarrow> error + (frontmatter \<times> ustring)" where
  "extract_frontmatter text =
     (case re_match_frontmatter text of
        None \<Rightarrow> Inr ([], text)
      | Some (frontmatter_text, after) \<Rightarrow>
          (let body = strip after
           in case parse_lines (splitlines frontmatter_text) [] of
                Inl e \<Rightarrow> Inl e
              | Inr frontmatter \<Rightarrow> Inr (frontmatter, body)))"

subsection \<open>process_markdown_file\<close>

text \<open>
  \<open>events_by_date\<close>, the module-level \<open>defaultdict\<close>, is passed in and returned. Reading
  an absent date yields, and stores, an entry with two empty lists.
\<close>

record day_entry =
  events :: "ustring list"
  diary :: "ustring list"

type_synonym aggregate = "(ustring, day_entry) dict"

definition entry_of :: "aggregate \<Rightarrow> ustring \<Rightarrow> day_entry" where
  "entry_of agg date = dict_get_default agg date \<lparr>events = [], diary = []\<rparr>"

definition append_event :: "ustring \<Rightarrow> ustring \<Rightarrow> aggregate \<Rightarrow> aggregate" where
  "append_event date line agg =
     dict_set date ((entry_of agg date)\<lparr>events := events (entry_of agg date) @ [line]\<rparr>) agg"

definition append_diary :: "ustring \<Rightarrow> ustring \<Rightarrow> aggregate \<Rightarrow> aggregate" where
  "append_diary date body agg =
     dict_set date ((entry_of agg date)\<lparr>diary := diary (entry_of agg date) @ [body]\<rparr>) agg"

text \<open>\<open>bool(s)\<close> for a string.\<close>

definition py_bool :: "ustring \<Rightarrow> bool" where
  "py_bool s = (s \<noteq> [])"

text \<open>
  Lines 100 to 103, as a function of \<open>completed\<close>. \<open>frontmatter.get("completed", "")\<close> is
  always a string, so \<open>completed is not None\<close> holds.
\<close>

definition checkbox_token :: "ustring \<Rightarrow> ustring" where
  "checkbox_token completed =
     (if completed \<noteq> [] then (if py_bool completed then U ''[x]'' else U ''[ ]'')
      else [])"

text \<open>Lines 88 to 114: the event line of a note, from its frontmatter.\<close>

definition event_line :: "frontmatter \<Rightarrow> ustring" where
  "event_line fm =
     (let title = dict_get_default fm (U ''title'') (U ''Untitled'');
          timezone = dict_get_default fm (U ''timezone'') [];
          start = dict_get_default fm (U ''startTime'') [];
          end_time = dict_get_default fm (U ''endTime'') [];
          end_date = dict_get_default fm (U ''endDate'') [];
          completed = dict_get_default fm (U ''completed'') [];
          checkbox = checkbox_token completed
      in if end_date \<noteq> [] then
           U ''- '' @ checkbox @ U '' '' @ title @ U ''  [startTime:: '' @ start @ U '']  '' @
           U ''[endTime:: '' @ end_time @ U '']  [endDate:: '' @ end_date @
           U '']  [timezone:: '' @ timezone @ U '']''
         else
           U ''- '' @ checkbox @ U '' '' @ title @ U ''  [startTime:: '' @ start @ U '']  '' @
           U ''[endTime:: '' @ end_time @ U '']  [timezone:: '' @ timezone @ U '']'')"

text \<open>
  \<open>process_markdown_file\<close>, from the text read from the file on. An exception raised
  inside the \<open>try\<close> block is caught and reported, and the aggregate stays as it was.
\<close>

definition process_markdown_file :: "ustring \<Rightarrow> aggregate \<Rightarrow> aggregate" where
  "process_markdown_file content agg =
     (if \<not> startswith content (U ''---'') then agg
      else case extract_frontmatter content of
             Inl e \<Rightarrow> agg
           | Inr (frontmatter, body) \<Rightarrow>
               (case dict_get frontmatter (U ''date'') of
                  None \<Rightarrow> agg
                | Some date \<Rightarrow>
                    if date = [] then agg
                    else (let agg1 = append_event date (event_line frontmatter) agg
                          in if body \<noteq> [] then append_diary date body agg1 else agg1)))"

subsection \<open>write_aggregated_files\<close>

text \<open>
  The export directory is a dictionary from the path handed to \<open>open\<close> to the text of
  the file; the normalisation that \<open>pathlib\<close> applies to the path is not modelled.
  \<open>open_fails\<close> tells for which paths \<open>open(output_path, "w")\<close> raises OSError. Nothing in
  \<open>write_aggregated_files\<close> catches it, so it leaves the loop and the function.
\<close>

type_synonym files = "(ustring, ustring) dict"

definition EXPORT_DIR :: ustring where
  "EXPORT_DIR = U ''exported''"

definition output_path :: "ustring \<Rightarrow> ustring" where
  "output_path date = EXPORT_DIR @ U ''/'' @ date @ U ''.md''"

definition file_text :: "day_entry \<Rightarrow> ustring" where
  "file_text data =
     (U ''## Events'' @ [10]) @ concat (map (\<lambda>event. event @ [10]) (events data)) @
     (U ''## Diary'' @ [10]) @ concat (map (\<lambda>d. d @ [10]) (diary data))"

fun write_aggregated_files ::
  "(ustring \<Rightarrow> bool) \<Rightarrow> aggregate \<Rightarrow> files \<Rightarrow> (error + unit) \<times> files" where
  "write_aggregated_files open_fails [] fs = (Inr (), fs)"
| "write_aggregated_files open_fails ((date, data) # rest) fs =
     (if open_fails (output_path date) then (Inl (OSError (output_path date)), fs)
      else write_aggregated_files open_fails rest
             (dict_set (output_path date) (file_text data) fs))"

section \<open>Notions of the specification\<close>

text \<open>
  The three recurrence dimensions of a recurring event: the list of weekdays (populated
  when it is a non-empty list), the day of the month without a month, and the month
  together with the day of the month. \<open>recurrence_dimensions\<close> counts the populated ones.
\<close>

definition dim_weekly :: "RecurringEvent \<Rightarrow> bool" where
  "dim_weekly ev = (case re_days_of_week ev of None \<Rightarrow> False | Some ds \<Rightarrow> ds \<noteq> [])"

definition dim_monthly :: "RecurringEvent \<Rightarrow> bool" where
  "dim_monthly ev = (re_day_of_month ev \<noteq> None \<and> re_month ev = None)"

definition dim_yearly :: "RecurringEvent \<Rightarrow> bool" where
  "dim_yearly ev = (re_month ev \<noteq> None \<and> re_day_of_month ev \<noteq> None)"

definition recurrence_dimensions :: "RecurringEvent \<Rightarrow> nat" where
  "recurrence_dimensions ev =
     length (filter id [dim_weekly ev, dim_monthly ev, dim_yearly ev])"

text \<open>
  A pair of delimiters, stated on the text alone: the text starts with \<open>---\<close>; after it
  come \<open>i\<close> whitespace characters and a newline; and somewhere after that newline, \<open>j\<close>
  characters on, a newline is followed by \<open>---\<close>.
\<close>

definition delimiter_pair :: "ustring \<Rightarrow> bool" where
  "delimiter_pair text =
     (startswith text (U ''---'') \<and>
      (\<exists>i \<in> set [0..<length text - 3].
         (\<forall>c \<in> set (take i (drop 3 text)). is_space c) \<and>
         drop 3 text ! i = 10 \<and>
         (\<exists>j \<in> set [0..<length text - 3 - i].
            startswith (drop (Suc i + j) (drop 3 text)) (10 # U ''---''))))"

text \<open>
  Writing a mapping back as a frontmatter block: the opening \<open>---\<close> line, one
  \<open>key: value\<close> line per entry in the order of the mapping, the closing \<open>---\<close> line. This
  is how \<open>write_single\<close> and \<open>write_recurring\<close> lay out the blocks they write.
\<close>

definition entry_line :: "ustring \<times> ustring \<Rightarrow> ustring" where
  "entry_line kv = fst kv @ U '': '' @ snd kv"

definition serialize_frontmatter :: "frontmatter \<Rightarrow> ustring" where
  "serialize_frontmatter fm =
     U ''---'' @ [10] @ concat (map (\<lambda>kv. entry_line kv @ [10]) fm) @ U ''---'' @ [10]"

text \<open>
  What the parser leaves in a mapping: a string is \<open>stripped\<close> when it has no whitespace
  at either end; an entry is flat when its key has no colon, neither key nor value has
  a line boundary, and both are stripped.
\<close>

definition stripped :: "ustring \<Rightarrow> bool" where
  "stripped s = (s = [] \<or> (\<not> is_space (hd s) \<and> \<not> is_space (last s)))"

definition flat_entry :: "ustring \<times> ustring \<Rightarrow> bool" where
  "flat_entry kv =
     (58 \<notin> set (fst kv) \<and> (\<forall>c \<in> set (fst kv @ snd kv). \<not> is_linebreak c) \<and>
      stripped (fst kv) \<and> stripped (snd kv))"

section \<open>Example notes\<close>

text \<open>
  The note of the specification's example, with the frontmatter the parser extracts
  from it; a note without a \<open>completed\<close> key; a note with \<open>completed: false\<close>.
\<close>

definition example_note :: ustring where
  "example_note =
     U ''--- \<newline>date: 2025-07-21\<newline>title: Call\<newline>startTime: 09:00\<newline>endTime: 10:00\<newline>timezone: Europe/Budapest\<newline>completed: true\<newline>---\<newline>Followed up.''"

definition example_frontmatter :: frontmatter where
  "example_frontmatter =
     [(U ''date'', U ''2025-07-21''), (U ''title'', U ''Call''), (U ''startTime'', U ''09:00''),
      (U ''endTime'', U ''10:00''), (U ''timezone'', U ''Europe/Budapest''),
      (U ''completed'', U ''true'')]"

definition plain_note :: ustring where
  "plain_note = U ''---\<newline>date: 2025-07-22\<newline>title: Review\<newline>---\<newline>''"

definition plain_frontmatter :: frontmatter where
  "plain_frontmatter = [(U ''date'', U ''2025-07-22''), (U ''title'', U ''Review'')]"

definition unfinished_note :: ustring where
  "unfinished_note =
     U ''---\<newline>date: 2025-07-23\<newline>title: Plan\<newline>completed: false\<newline>---\<newline>''"

definition unfinished_frontmatter :: frontmatter where
  "unfinished_frontmatter =
     [(U ''date'', U ''2025-07-23''), (U ''title'', U ''Plan''), (U ''completed'', U ''false'')]"

text \<open>The weekly event of the specification's file-name example.\<close>

definition standup_event :: RecurringEvent where
  "standup_event =
     \<lparr>re_days_of_week = Some [U ''M'', U ''W'', U ''F''], re_month = None,
      re_day_of_month = None, re_start_time = Some 540, re_end_time = Some 570,
      re_tz = U ''Europe/Budapest'', re_category = Some (U ''Work''),
      re_subcategory = Some (U ''Team''), re_title = U ''Standup''\<rparr>"

section \<open>The random module: ranges\<close>

lemma randbelow_less: "0 < n \<Longrightarrow> fst (randbelow n g) < n"
  by (simp add: randbelow_def split: list.split)

lemma random_choice_member: "seq \<noteq> [] \<Longrightarrow> fst (random_choice seq g) \<in> set seq"
  using randbelow_less [of "length seq" g]
  by (auto simp add: random_choice_def split: prod.split)

lemma random_randint_range:
  "a \<le> b \<Longrightarrow> a \<le> fst (random_randint a b g) \<and> fst (random_randint a b g) \<le> b"
  using randbelow_less [of "nat (b - a + 1)" g]
  by (auto simp add: random_randint_def split: prod.split)

lemma length_sample_loop: "length (fst (sample_loop pool k g)) = k"
proof (induction k arbitrary: pool g)
  case 0
  show ?case by simp
next
  case (Suc k)
  obtain j g1 where 1: "randbelow (length pool) g = (j, g1)" by force
  obtain rest g2 where
    2: "sample_loop (take (length pool - 1) (pool[j := pool ! (length pool - 1)])) k g1
          = (rest, g2)"
    by force
  have "length rest = k" using Suc.IH [of _ g1] 2 by (metis fst_conv)
  then show ?case using 1 2 by (simp add: Let_def)
qed

lemma random_sample_nonempty: "0 < k \<Longrightarrow> fst (random_sample population k g) \<noteq> []"
  using length_sample_loop [of population k g] by (auto simp: random_sample_def)

section \<open>The generated events\<close>

text \<open>
  Claim C10. A single event that is not all-day has a start and an end, both minutes
  of one day (from 0 up to, not including, 1440), with the end after the start; an
  all-day single event has neither a start nor an end.
\<close>

theorem gen_single_event_times:
  "(\<not> se_all_day (fst (gen_single_event d g)) \<longrightarrow>
      (\<exists>s e. se_start (fst (gen_single_event d g)) = Some s \<and>
             se_end (fst (gen_single_event d g)) = Some e \<and>
             s < e \<and> 0 \<le> s \<and> s < 1440 \<and> 0 \<le> e \<and> e < 1440)) \<and>
   (se_all_day (fst (gen_single_event d g)) \<longrightarrow>
      se_start (fst (gen_single_event d g)) = None \<and>
      se_end (fst (gen_single_event d g)) = None)"
proof -
  obtain tz g1 where 1: "random_choice TZ_CHOICES g = (tz, g1)" by force
  obtain category sub g2 where 2: "pick_category g1 = ((category, sub), g2)"
    by (metis surj_pair)
  obtain tail g3 where 3: "random_choice TITLE_TAILS g2 = (tail, g3)" by force
  obtain r g4 where 4: "random_random g3 = (r, g4)" by force
  obtain sod g5 where 5: "random_randint 420 600 g4 = (sod, g5)" by force
  obtain off g6 where 6: "random_choice [0, 15, 30, 45, 60, 90, 120 :: int] g5 = (off, g6)"
    by force
  obtain dur g7 where 7: "random_choice [30, 45, 60, 75, 90, 120, 150 :: int] g6 = (dur, g7)"
    by force
  have sod: "420 \<le> sod \<and> sod \<le> 600"
    using random_randint_range [of 420 600 g4] 5 by simp
  have off: "0 \<le> off \<and> off \<le> 120"
    using random_choice_member [of "[0, 15, 30, 45, 60, 90, 120 :: int]" g5] 6 by auto
  have dur: "30 \<le> dur \<and> dur \<le> 150"
    using random_choice_member [of "[30, 45, 60, 75, 90, 120, 150 :: int]" g6] 7 by auto
  show ?thesis
    using sod off dur by (simp add: gen_single_event_def 1 2 3 4 5 6 7 Let_def)
qed

text \<open>
  Two runs of the generator: one whose draw for \<open>random.random()\<close> is \<open>2^52 / 2^53\<close>, a
  timed event, and one whose draw is \<open>5 / 2^53\<close>, an all-day event.
\<close>

theorem gen_single_event_times_witness:
  "\<not> se_all_day (fst (gen_single_event \<lparr>d_year = 2025, d_month = 7, d_day = 21\<rparr>
                        [0, 0, 0, 0, 2 ^ 52, 3, 4, 5])) \<and>
   (\<exists>s e. se_start (fst (gen_single_event \<lparr>d_year = 2025, d_month = 7, d_day = 21\<rparr>
                          [0, 0, 0, 0, 2 ^ 52, 3, 4, 5])) = Some s \<and>
          se_end (fst (gen_single_event \<lparr>d_year = 2025, d_month = 7, d_day = 21\<rparr>
                          [0, 0, 0, 0, 2 ^ 52, 3, 4, 5])) = Some e \<and>
          s < e \<and> 0 \<le> s \<and> s < 1440 \<and> 0 \<le> e \<and> e < 1440) \<and>
   se_all_day (fst (gen_single_event \<lparr>d_year = 2025, d_month = 7, d_day = 21\<rparr>
                      [0, 0, 0, 0, 5, 3, 4, 5])) \<and>
   se_start (fst (gen_single_event \<lparr>d_year = 2025, d_month = 7, d_day = 21\<rparr>
                    [0, 0, 0, 0, 5, 3, 4, 5])) = None \<and>
   se_end (fst (gen_single_event \<lparr>d_year = 2025, d_month = 7, d_day = 21\<rparr>
                  [0, 0, 0, 0, 5, 3, 4, 5])) = None"
proof -
  have timed:
    "\<not> se_all_day (fst (gen_single_event \<lparr>d_year = 2025, d_month = 7, d_day = 21\<rparr>
                         [0, 0, 0, 0, 2 ^ 52, 3, 4, 5]))"
    by (simp add: gen_single_event_def random_choice_def randbelow_def random_random_def
        random_randint_def pick_category_def CATEGORIES_def float_0_2_def)
  have all_day:
    "se_all_day (fst (gen_single_event \<lparr>d_year = 2025, d_month = 7, d_day = 21\<rparr>
                       [0, 0, 0, 0, 5, 3, 4, 5]))"
    by (simp add: gen_single_event_def random_choice_def randbelow_def random_random_def
        random_randint_def pick_category_def CATEGORIES_def float_0_2_def)
  show ?thesis
    using timed all_day
      gen_single_event_times [of "\<lparr>d_year = 2025, d_month = 7, d_day = 21\<rparr>"
                                 "[0, 0, 0, 0, 2 ^ 52, 3, 4, 5]"]
      gen_single_event_times [of "\<lparr>d_year = 2025, d_month = 7, d_day = 21\<rparr>"
                                 "[0, 0, 0, 0, 5, 3, 4, 5]"]
    by blast
qed

text \<open>
  Claim C7. Every event of the recurring-event generator has exactly one recurrence
  dimension populated, and when that is the list of weekdays, the month and the day of
  the month are unset.
\<close>

theorem gen_recurring_event_one_dimension:
  "recurrence_dimensions (fst (gen_recurring_event g)) = 1 \<and>
   (dim_weekly (fst (gen_recurring_event g)) \<longrightarrow>
      re_month (fst (gen_recurring_event g)) = None \<and>
      re_day_of_month (fst (gen_recurring_event g)) = None)"
proof -
  obtain tz g1 where 1: "random_choice TZ_CHOICES g = (tz, g1)" by force
  obtain category sub g2 where 2: "pick_category g1 = ((category, sub), g2)"
    by (metis surj_pair)
  obtain tail g3 where 3: "random_choice TITLE_TAILS g2 = (tail, g3)" by force
  obtain r g4 where 4: "random_random g3 = (r, g4)" by force
  obtain k g5 where 5: "random_randint 1 3 g4 = (k, g5)" by force
  obtain days g6 where
    6: "random_sample (take 5 (drop (Suc 0) DOW)) (nat k) g5 = (days, g6)"
    by force
  have "1 \<le> k" using random_randint_range [of 1 3 g4] 5 by simp
  then have days: "days \<noteq> []"
    using random_sample_nonempty [of "nat k" "take 5 (drop (Suc 0) DOW)" g5] 6 by simp
  show ?thesis
    using days
    by (simp add: gen_recurring_event_def 1 2 3 4 5 6 Let_def recurrence_dimensions_def
        dim_weekly_def dim_monthly_def dim_yearly_def split: prod.split)
qed

text \<open>A run of the generator that yields a weekly event.\<close>

theorem gen_recurring_event_one_dimension_witness:
  "dim_weekly (fst (gen_recurring_event [0, 0, 0, 0, 0, 0, 1, 3, 4])) \<and>
   recurrence_dimensions (fst (gen_recurring_event [0, 0, 0, 0, 0, 0, 1, 3, 4])) = 1 \<and>
   re_month (fst (gen_recurring_event [0, 0, 0, 0, 0, 0, 1, 3, 4])) = None \<and>
   re_day_of_month (fst (gen_recurring_event [0, 0, 0, 0, 0, 0, 1, 3, 4])) = None"
proof -
  have weekly: "dim_weekly (fst (gen_recurring_event [0, 0, 0, 0, 0, 0, 1, 3, 4]))"
    by (simp add: gen_recurring_event_def random_choice_def randbelow_def random_random_def
        random_randint_def random_sample_def pick_category_def CATEGORIES_def DOW_def
        float_0_6_def dim_weekly_def)
  show ?thesis
    using weekly gen_recurring_event_one_dimension [of "[0, 0, 0, 0, 0, 0, 1, 3, 4]"]
    by blast
qed

section \<open>File names of recurring events\<close>

text \<open>
  Claim C8. A weekly event with the days M, W, F and the constructed title
  \<open>Work - Team - Standup\<close> is written to \<open>(Every M,W,F) Work - Team - Standup.md\<close>; and the
  file name of every event with a non-empty list of weekdays is \<open>(Every \<close>, the weekday
  codes in the order of the list joined by commas, \<open>) \<close>, the constructed title and
  \<open>.md\<close>. The list of a generated event is in the order in which \<open>random.sample\<close> drew
  its elements.
\<close>

theorem write_recurring_filename_weekly:
  "(re_days_of_week ev = Some [U ''M'', U ''W'', U ''F''] \<and>
    build_constructed_title (re_category ev) (re_subcategory ev) (re_title ev)
      = U ''Work - Team - Standup'' \<longrightarrow>
    write_recurring_filename ev = Inr (U ''(Every M,W,F) Work - Team - Standup.md'')) \<and>
   (re_days_of_week ev = Some days \<and> days \<noteq> [] \<longrightarrow>
    write_recurring_filename ev =
      Inr (U ''(Every '' @ join (U '','') days @ U '') '' @
           build_constructed_title (re_category ev) (re_subcategory ev) (re_title ev) @
           U ''.md''))"
  by (simp add: write_recurring_filename_def truthy_list_def U_def Let_def)

theorem write_recurring_filename_weekly_witness:
  "re_days_of_week standup_event = Some [U ''M'', U ''W'', U ''F''] \<and>
   [U ''M'', U ''W'', U ''F''] \<noteq> [] \<and>
   build_constructed_title (re_category standup_event) (re_subcategory standup_event)
     (re_title standup_event) = U ''Work - Team - Standup'' \<and>
   write_recurring_filename standup_event
     = Inr (U ''(Every M,W,F) Work - Team - Standup.md'')"
proof -
  have days: "re_days_of_week standup_event = Some [U ''M'', U ''W'', U ''F'']"
    by (simp add: standup_event_def)
  have title:
    "build_constructed_title (re_category standup_event) (re_subcategory standup_event)
       (re_title standup_event) = U ''Work - Team - Standup''"
    by (simp add: standup_event_def build_constructed_title_def truthy_str_def U_def)
  show ?thesis
    using days title
      write_recurring_filename_weekly [of standup_event "[U ''M'', U ''W'', U ''F'']"]
    by simp
qed

lemma month_abbr_in_range:
  "1 \<le> m \<Longrightarrow> m \<le> 12 \<Longrightarrow> month_abbr m = Inr (month_names ! nat (m - 1))"
proof -
  assume m: "1 \<le> m" "m \<le> 12"
  then have "nat m = Suc (nat (m - 1))" by simp
  then show ?thesis using m by (simp add: month_abbr_def month_names_def Let_def)
qed

text \<open>
  Claim C9. Take an event without weekdays whose day of the month is set (and is a day
  of the month, hence not 0). If its month is unset, its file name is
  \<open>(Every month on the DD) Title.md\<close>; if its month is set to a month from 1 to 12, its
  file name is \<open>(Every year on Mon DD) Title.md\<close>. Here DD is the day of the month in
  decimal, Title the constructed title and Mon the entry for the month in the table
  \<open>month_names\<close> of twelve abbreviations.
\<close>

theorem write_recurring_filename_monthly_yearly:
  "length month_names = 12 \<and>
   (\<not> truthy_list (re_days_of_week ev) \<and> re_day_of_month ev = Some dd \<and> dd \<noteq> 0 \<longrightarrow>
     (re_month ev = None \<longrightarrow>
        write_recurring_filename ev =
          Inr (U ''(Every month on the '' @ str_int dd @ U '') '' @
               build_constructed_title (re_category ev) (re_subcategory ev) (re_title ev) @
               U ''.md'')) \<and>
     (re_month ev = Some m \<and> 1 \<le> m \<and> m \<le> 12 \<longrightarrow>
        write_recurring_filename ev =
          Inr (U ''(Every year on '' @ month_names ! nat (m - 1) @ U '' '' @ str_int dd @
               U '') '' @
               build_constructed_title (re_category ev) (re_subcategory ev) (re_title ev) @
               U ''.md'')))"
  using month_abbr_in_range [of m]
  by (auto simp add: write_recurring_filename_def truthy_int_def Let_def month_names_def)

text \<open>
  The standup event, moved to the 15th of every month and to the 5th of every March.
\<close>

theorem write_recurring_filename_monthly_yearly_witness:
  "\<not> truthy_list (re_days_of_week (standup_event\<lparr>re_days_of_week := None,
        re_day_of_month := Some 15\<rparr>)) \<and>
   write_recurring_filename
     (standup_event\<lparr>re_days_of_week := None, re_day_of_month := Some 15\<rparr>)
     = Inr (U ''(Every month on the 15) Work - Team - Standup.md'') \<and>
   write_recurring_filename
     (standup_event\<lparr>re_days_of_week := None, re_month := Some 3, re_day_of_month := Some 5\<rparr>)
     = Inr (U ''(Every year on Mar 5) Work - Team - Standup.md'')"
proof -
  have title:
    "build_constructed_title (Some (U ''Work'')) (Some (U ''Team'')) (U ''Standup'')
       = U ''Work - Team - Standup''"
    by (simp add: build_constructed_title_def truthy_str_def U_def)
  have digits: "str_int 15 = U ''15''" "str_int 5 = U ''5''"
    by (simp_all add: str_int_def U_def)
  have mar: "month_names ! 2 = U ''Mar''"
    by (simp add: month_names_def numeral_2_eq_2)
  show ?thesis
    using
      write_recurring_filename_monthly_yearly
        [of "standup_event\<lparr>re_days_of_week := None, re_day_of_month := Some 15\<rparr>" 15 3]
      write_recurring_filename_monthly_yearly
        [of "standup_event\<lparr>re_days_of_week := None, re_month := Some 3,
               re_day_of_month := Some 5\<rparr>" 5 3]
    by (simp add: standup_event_def truthy_list_def title digits mar) (simp add: U_def)
qed

section \<open>Dictionaries\<close>

lemma map_of_dict_set: "map_of (dict_set k v d) = (map_of d)(k \<mapsto> v)"
  by (induction d) auto


lemma entry_of_dict_set:
  "entry_of (dict_set k v agg) k' = (if k' = k then v else entry_of agg k')"
  by (simp add: entry_of_def dict_get_default_def map_of_dict_set)

lemma dict_set_keys: "fst ` set (dict_set k v d) = insert k (fst ` set d)"
  using arg_cong [OF map_of_dict_set [of k v d], of dom]
  by (simp add: dom_map_of_conv_image_fst)

lemma distinct_dict_set: "distinct (map fst d) \<Longrightarrow> distinct (map fst (dict_set k v d))"
proof (induction d)
  case Nil
  show ?case by simp
next
  case (Cons a d)
  then show ?case using dict_set_keys [of k v d] by (cases a) auto
qed

lemma dict_set_new: "k \<notin> fst ` set d \<Longrightarrow> dict_set k v d = d @ [(k, v)]"
  by (induction d) auto

section \<open>The converter on the example notes\<close>

lemmas parse_defs = extract_frontmatter_def re_match_frontmatter_def
  startswith_def U_def is_space_def is_linebreak_def strip_def splitlines_def split1_def

lemmas aggregate_defs = process_markdown_file_def dict_get_def dict_get_default_def
  event_line_def checkbox_token_def py_bool_def append_event_def append_diary_def
  entry_of_def output_path_def EXPORT_DIR_def file_text_def Let_def

lemma extract_example_note:
  "extract_frontmatter example_note = Inr (example_frontmatter, U ''Followed up.'')"
  by (simp add: example_note_def example_frontmatter_def parse_defs)

lemma extract_plain_note: "extract_frontmatter plain_note = Inr (plain_frontmatter, [])"
  by (simp add: plain_note_def plain_frontmatter_def parse_defs)

lemma extract_unfinished_note:
  "extract_frontmatter unfinished_note = Inr (unfinished_frontmatter, [])"
  by (simp add: unfinished_note_def unfinished_frontmatter_def parse_defs)

text \<open>
  Claim C2. Processing the one note of the example into an empty aggregate and flushing
  it into an empty export directory, with no failing \<open>open\<close>, leaves exactly one file,
  \<open>2025-07-21.md\<close> in the export directory, with the text of the example.
\<close>

theorem example_note_daily_file:
  "write_aggregated_files (\<lambda>p. False)
     (process_markdown_file
        (U ''--- \<newline>date: 2025-07-21\<newline>title: Call\<newline>startTime: 09:00\<newline>endTime: 10:00\<newline>timezone: Europe/Budapest\<newline>completed: true\<newline>---\<newline>Followed up.'')
        [])
     []
   = (Inr (),
      [(U ''exported/2025-07-21.md'',
        U ''## Events\<newline>- [x] Call  [startTime:: 09:00]  [endTime:: 10:00]  [timezone:: Europe/Budapest]\<newline>## Diary\<newline>Followed up.\<newline>'')])"
  by (simp add: parse_defs aggregate_defs)

section \<open>The checkbox of an event line\<close>

lemma process_markdown_file_event:
  assumes "startswith content (U ''---'')"
    and "extract_frontmatter content = Inr (fm, body)"
    and "dict_get fm (U ''date'') = Some d" and "d \<noteq> []"
  shows "events (entry_of (process_markdown_file content agg) d)
           = events (entry_of agg d) @ [event_line fm]"
  using assms
  by (simp add: process_markdown_file_def Let_def append_event_def append_diary_def
      entry_of_dict_set)

lemma event_line_shape:
  "\<exists>rest. event_line fm =
     U ''- '' @ checkbox_token (dict_get_default fm (U ''completed'') []) @ U '' '' @
     dict_get_default fm (U ''title'') (U ''Untitled'') @ rest"
  by (simp add: event_line_def Let_def)

lemma events_entry_of_empty: "events (entry_of [] k) = []"
  by (simp add: entry_of_def dict_get_default_def)

text \<open>
  Claim C3. Take a note that is aggregated: it starts with \<open>---\<close>, it parses to the
  frontmatter \<open>fm\<close>, and \<open>fm\<close> has a non-empty \<open>date\<close>. Its event line \<open>event_line fm\<close> is
  appended to the events of that date. If \<open>completed\<close> is \<open>true\<close>, the checkbox token is
  \<open>[x]\<close> and the line begins \<open>- [x] title\<close>; if \<open>completed\<close> is absent or empty, the token is
  the empty string and the line begins \<open>-  title\<close>, with two spaces.
\<close>

theorem completed_checkbox:
  assumes "startswith content (U ''---'')"
    and "extract_frontmatter content = Inr (fm, body)"
    and "dict_get fm (U ''date'') = Some d" and "d \<noteq> []"
  shows "events (entry_of (process_markdown_file content agg) d)
           = events (entry_of agg d) @ [event_line fm] \<and>
         (dict_get fm (U ''completed'') = Some (U ''true'') \<longrightarrow>
            checkbox_token (dict_get_default fm (U ''completed'') []) = U ''[x]'' \<and>
            (\<exists>rest. event_line fm =
               U ''- [x] '' @ dict_get_default fm (U ''title'') (U ''Untitled'') @ rest)) \<and>
         (dict_get fm (U ''completed'') = None \<or> dict_get fm (U ''completed'') = Some [] \<longrightarrow>
            checkbox_token (dict_get_default fm (U ''completed'') []) = [] \<and>
            (\<exists>rest. event_line fm =
               U ''-  '' @ dict_get_default fm (U ''title'') (U ''Untitled'') @ rest))"
proof (intro conjI impI)
  show "events (entry_of (process_markdown_file content agg) d)
          = events (entry_of agg d) @ [event_line fm]"
    using assms by (rule process_markdown_file_event)
next
  assume c: "dict_get fm (U ''completed'') = Some (U ''true'')"
  then show cb: "checkbox_token (dict_get_default fm (U ''completed'') []) = U ''[x]''"
    by (simp add: dict_get_def dict_get_default_def checkbox_token_def py_bool_def U_def)
  show "\<exists>rest. event_line fm =
          U ''- [x] '' @ dict_get_default fm (U ''title'') (U ''Untitled'') @ rest"
    using event_line_shape [of fm] cb by (simp add: U_def)
next
  assume c: "dict_get fm (U ''completed'') = None \<or> dict_get fm (U ''completed'') = Some []"
  then show cb: "checkbox_token (dict_get_default fm (U ''completed'') []) = []"
    by (auto simp add: dict_get_def dict_get_default_def checkbox_token_def)
  show "\<exists>rest. event_line fm =
          U ''-  '' @ dict_get_default fm (U ''title'') (U ''Untitled'') @ rest"
    using event_line_shape [of fm] cb by (simp add: U_def)
qed

text \<open>The example note, with \<open>completed: true\<close>, and a note without the key.\<close>

theorem completed_checkbox_witness:
  "startswith example_note (U ''---'') \<and>
   extract_frontmatter example_note = Inr (example_frontmatter, U ''Followed up.'') \<and>
   dict_get example_frontmatter (U ''date'') = Some (U ''2025-07-21'') \<and>
   dict_get example_frontmatter (U ''completed'') = Some (U ''true'') \<and>
   events (entry_of (process_markdown_file example_note []) (U ''2025-07-21''))
     = [event_line example_frontmatter] \<and>
   (\<exists>rest. event_line example_frontmatter = U ''- [x] Call'' @ rest) \<and>
   startswith plain_note (U ''---'') \<and>
   extract_frontmatter plain_note = Inr (plain_frontmatter, []) \<and>
   dict_get plain_frontmatter (U ''date'') = Some (U ''2025-07-22'') \<and>
   dict_get plain_frontmatter (U ''completed'') = None \<and>
   events (entry_of (process_markdown_file plain_note []) (U ''2025-07-22''))
     = [event_line plain_frontmatter] \<and>
   (\<exists>rest. event_line plain_frontmatter = U ''-  Review'' @ rest)"
proof -
  have s1: "startswith example_note (U ''---'')"
    by (simp add: example_note_def startswith_def U_def)
  have d1: "dict_get example_frontmatter (U ''date'') = Some (U ''2025-07-21'')"
    by (simp add: example_frontmatter_def dict_get_def U_def)
  have c1: "dict_get example_frontmatter (U ''completed'') = Some (U ''true'')"
    by (simp add: example_frontmatter_def dict_get_def U_def)
  have t1: "dict_get_default example_frontmatter (U ''title'') (U ''Untitled'') = U ''Call''"
    by (simp add: example_frontmatter_def dict_get_default_def U_def)
  have n1: "U ''2025-07-21'' \<noteq> []" by (simp add: U_def)
  have s2: "startswith plain_note (U ''---'')"
    by (simp add: plain_note_def startswith_def U_def)
  have d2: "dict_get plain_frontmatter (U ''date'') = Some (U ''2025-07-22'')"
    by (simp add: plain_frontmatter_def dict_get_def U_def)
  have c2: "dict_get plain_frontmatter (U ''completed'') = None"
    by (simp add: plain_frontmatter_def dict_get_def U_def)
  have t2: "dict_get_default plain_frontmatter (U ''title'') (U ''Untitled'') = U ''Review''"
    by (simp add: plain_frontmatter_def dict_get_default_def U_def)
  have n2: "U ''2025-07-22'' \<noteq> []" by (simp add: U_def)
  have u: "U ''- [x] '' @ U ''Call'' @ rest = U ''- [x] Call'' @ rest"
    "U ''-  '' @ U ''Review'' @ rest = U ''-  Review'' @ rest" for rest
    by (simp_all add: U_def)
  show ?thesis
    using completed_checkbox [OF s1 extract_example_note d1 n1, of "[]"]
      completed_checkbox [OF s2 extract_plain_note d2 n2, of "[]"]
      s1 d1 c1 s2 d2 c2 extract_example_note extract_plain_note
    by (simp add: events_entry_of_empty t1 t2 u)
qed

text \<open>
  Claim C4. The checkbox token is \<open>[x]\<close> or the empty string, never \<open>[ ]\<close>, whatever the
  value of \<open>completed\<close>, and it is \<open>[x]\<close> for every non-empty value. For a note that is
  aggregated, the line appended to the events of its date is \<open>- \<close>, that token, a space,
  the title and the annotations; so a note whose \<open>completed\<close> key has any non-empty value
  gets the token \<open>[x]\<close>.
\<close>

theorem checkbox_never_unchecked:
  "(checkbox_token completed = U ''[x]'' \<or> checkbox_token completed = []) \<and>
   checkbox_token completed \<noteq> U ''[ ]'' \<and>
   (completed \<noteq> [] \<longrightarrow> checkbox_token completed = U ''[x]'') \<and>
   (startswith content (U ''---'') \<and> extract_frontmatter content = Inr (fm, body) \<and>
    dict_get fm (U ''date'') = Some d \<and> d \<noteq> [] \<longrightarrow>
      events (entry_of (process_markdown_file content agg) d)
        = events (entry_of agg d) @ [event_line fm] \<and>
      (\<exists>rest. event_line fm =
         U ''- '' @ checkbox_token (dict_get_default fm (U ''completed'') []) @ U '' '' @
         dict_get_default fm (U ''title'') (U ''Untitled'') @ rest) \<and>
      (\<forall>v. dict_get fm (U ''completed'') = Some v \<and> v \<noteq> [] \<longrightarrow>
         checkbox_token (dict_get_default fm (U ''completed'') []) = U ''[x]''))"
  using process_markdown_file_event [of content fm body d agg] event_line_shape [of fm]
  by (auto simp add: checkbox_token_def py_bool_def U_def dict_get_def dict_get_default_def)

text \<open>A note with \<open>completed: false\<close>, and the value \<open>0\<close>.\<close>

theorem checkbox_never_unchecked_witness:
  "startswith unfinished_note (U ''---'') \<and>
   extract_frontmatter unfinished_note = Inr (unfinished_frontmatter, []) \<and>
   dict_get unfinished_frontmatter (U ''date'') = Some (U ''2025-07-23'') \<and>
   dict_get unfinished_frontmatter (U ''completed'') = Some (U ''false'') \<and>
   U ''false'' \<noteq> [] \<and> U ''0'' \<noteq> [] \<and>
   checkbox_token (U ''false'') = U ''[x]'' \<and>
   checkbox_token (U ''0'') = U ''[x]'' \<and>
   events (entry_of (process_markdown_file unfinished_note []) (U ''2025-07-23''))
     = [event_line unfinished_frontmatter] \<and>
   checkbox_token (dict_get_default unfinished_frontmatter (U ''completed'') []) = U ''[x]''"
proof -
  have s: "startswith unfinished_note (U ''---'')"
    by (simp add: unfinished_note_def startswith_def U_def)
  have d: "dict_get unfinished_frontmatter (U ''date'') = Some (U ''2025-07-23'')"
    by (simp add: unfinished_frontmatter_def dict_get_def U_def)
  have c: "dict_get unfinished_frontmatter (U ''completed'') = Some (U ''false'')"
    by (simp add: unfinished_frontmatter_def dict_get_def U_def)
  have n: "U ''2025-07-23'' \<noteq> []" "U ''false'' \<noteq> []" "U ''0'' \<noteq> []"
    by (simp_all add: U_def)
  show ?thesis
    using s d c n extract_unfinished_note
      checkbox_never_unchecked
        [of "U ''false''" unfinished_note unfinished_frontmatter "[]" "U ''2025-07-23''" "[]"]
      checkbox_never_unchecked
        [of "U ''0''" unfinished_note unfinished_frontmatter "[]" "U ''2025-07-23''" "[]"]
    by (simp add: events_entry_of_empty)
qed

section \<open>A failing write during the flush\<close>




lemma process_markdown_file_distinct:
  "distinct (map fst agg) \<Longrightarrow> distinct (map fst (process_markdown_file content agg))"
  by (simp add: process_markdown_file_def append_event_def append_diary_def Let_def
      distinct_dict_set split: sum.split option.split prod.split)






section \<open>The parser on malformed input\<close>

lemma split1_two:
  "sep \<in> set s \<Longrightarrow>
   split1 sep s = [takeWhile (\<lambda>c. c \<noteq> sep) s, tl (dropWhile (\<lambda>c. c \<noteq> sep) s)]"
  by (simp add: split1_def)








text \<open>
  The backtracking search finds a match exactly when the text has a pair of delimiters.
\<close>

lemma find_close_complete:
  "startswith (drop j s) (10 # U ''---'') \<Longrightarrow> find_close s \<noteq> None"
proof (induction s arbitrary: j)
  case Nil
  then show ?case by (simp add: startswith_def U_def)
next
  case (Cons c cs)
  show ?case
  proof (cases "startswith (c # cs) (10 # U ''---'')")
    case True
    then show ?thesis by simp
  next
    case False
    then obtain j' where "j = Suc j'" using Cons.prems by (cases j) auto
    then have "find_close cs \<noteq> None" using Cons.prems Cons.IH [of j'] by simp
    then show ?thesis using False by simp
  qed
qed

lemma try_open_complete:
  "i \<le> k \<Longrightarrow> i < length r \<Longrightarrow> r ! i = 10 \<Longrightarrow> find_close (drop (Suc i) r) \<noteq> None \<Longrightarrow>
   try_open k r \<noteq> None"
proof (induction k)
  case 0
  then show ?case by auto
next
  case (Suc k)
  show ?case
  proof (cases "i = Suc k")
    case True
    then show ?thesis using Suc.prems by auto
  next
    case False
    then have "try_open k r \<noteq> None" using Suc by simp
    then show ?thesis by (auto split: option.splits)
  qed
qed

lemma length_takeWhile_ge:
  "\<forall>c \<in> set (take i xs). P c \<Longrightarrow> i \<le> length xs \<Longrightarrow> i \<le> length (takeWhile P xs)"
proof -
  assume a: "\<forall>c \<in> set (take i xs). P c" and i: "i \<le> length xs"
  have "takeWhile P (take i xs @ drop i xs) = take i xs @ takeWhile P (drop i xs)"
    using a by (intro takeWhile_append2) simp
  then have "takeWhile P xs = take i xs @ takeWhile P (drop i xs)"
    by (simp only: append_take_drop_id)
  then have "length (takeWhile P xs) = length (take i xs) + length (takeWhile P (drop i xs))"
    by (metis length_append)
  then have "length (takeWhile P xs) = i + length (takeWhile P (drop i xs))"
    using i by simp
  then show ?thesis by simp
qed

lemma delimiter_pair_re_match_frontmatter:
  assumes "delimiter_pair text"
  shows "re_match_frontmatter text \<noteq> None"
proof -
  let ?r = "drop 3 text"
  have sw: "startswith text (U ''---'')" using assms by (simp add: delimiter_pair_def)
  obtain i j where i: "i < length ?r" "\<forall>c \<in> set (take i ?r). is_space c" "?r ! i = 10"
    and j: "startswith (drop (Suc i + j) ?r) (10 # U ''---'')"
    using assms unfolding delimiter_pair_def by auto
  have "drop j (drop (Suc i) ?r) = drop (Suc i + j) ?r" by (simp add: ac_simps)
  then have "find_close (drop (Suc i) ?r) \<noteq> None"
    using j find_close_complete [of j "drop (Suc i) ?r"] by simp
  moreover have "i \<le> length (takeWhile is_space ?r)"
    using i(1,2) by (simp add: length_takeWhile_ge)
  ultimately have "try_open (length (takeWhile is_space ?r)) ?r \<noteq> None"
    using i(1,3) try_open_complete [of i "length (takeWhile is_space ?r)" ?r] by blast
  then show ?thesis
    using sw by (auto simp add: re_match_frontmatter_def Let_def split: option.splits)
qed



section \<open>Writing a mapping back and parsing it again\<close>

subsection \<open>Stripped strings\<close>

lemma startswith_Cons: "startswith (c # s) (d # p) = (c = d \<and> startswith s p)"
  by (auto simp add: startswith_def)

lemma startswith_Nil: "startswith s [] = True"
  by (simp add: startswith_def)

lemma startswith_append_same: "startswith (p @ s) p"
  by (simp add: startswith_def)

lemma linebreak_is_space: "is_linebreak c \<Longrightarrow> is_space c"
  by (auto simp add: is_linebreak_def is_space_def)

lemma stripped_strip: "stripped (strip s)"
proof -
  let ?a = "dropWhile is_space s"
  let ?b = "dropWhile is_space (rev ?a)"
  show ?thesis
  proof (cases "?b = []")
    case True
    then show ?thesis by (simp add: stripped_def strip_def)
  next
    case False
    have l: "\<not> is_space (hd ?b)" using False by (rule hd_dropWhile)
    then have last: "\<not> is_space (last (rev ?b))" using False by (simp add: last_rev)
    have a: "?a \<noteq> []" using False by (metis dropWhile.simps(1) rev.simps(1))
    then have ha: "\<not> is_space (hd ?a)" by (rule hd_dropWhile)
    obtain n where n: "?b = drop n (rev ?a)" by (metis dropWhile_eq_drop)
    have "rev ?b = take (length ?a - n) ?a" using n by (simp add: rev_drop)
    moreover have "rev ?b \<noteq> []" using False by simp
    ultimately have "hd (rev ?b) = hd ?a" by (metis hd_take take_eq_Nil gr0I)
    then show ?thesis using ha last by (simp add: stripped_def strip_def)
  qed
qed

lemma strip_stripped: "stripped s \<Longrightarrow> strip s = s"
proof (cases "s = []")
  case True
  then show ?thesis by (simp add: strip_def)
next
  case False
  assume "stripped s"
  then have h: "\<not> is_space (hd s)" and l: "\<not> is_space (last s)"
    using False by (simp_all add: stripped_def)
  have 1: "dropWhile is_space s = s" using h False by (simp add: dropWhile_eq_self_iff)
  have "\<not> is_space (hd (rev s))" using l False by (simp add: hd_rev)
  then have 2: "dropWhile is_space (rev s) = rev s" by (simp add: dropWhile_eq_self_iff)
  show ?thesis by (simp add: strip_def 1 2)
qed

lemma set_strip: "set (strip s) \<subseteq> set s"
proof
  fix c
  assume "c \<in> set (strip s)"
  then have "c \<in> set (dropWhile is_space (rev (dropWhile is_space s)))"
    by (simp add: strip_def)
  then have "c \<in> set (rev (dropWhile is_space s))" by (rule set_dropWhileD)
  then show "c \<in> set s" using set_dropWhileD by fastforce
qed

lemma strip_space_Cons: "is_space c \<Longrightarrow> strip (c # s) = strip s"
  by (simp add: strip_def)

subsection \<open>Lines\<close>

lemma splitlines_from_Cons:
  "splitlines_from cur (c # s) =
     (if c = 13 \<and> s \<noteq> [] \<and> hd s = 10 then rev cur # splitlines_from [] (tl s)
      else if is_linebreak c then rev cur # splitlines_from [] s
      else splitlines_from (c # cur) s)"
  by (cases s) (simp_all add: is_linebreak_def)

lemma splitlines_from_no_linebreak:
  "\<forall>c \<in> set cur. \<not> is_linebreak c \<Longrightarrow>
   \<forall>l \<in> set (splitlines_from cur s). \<forall>c \<in> set l. \<not> is_linebreak c"
proof (induction cur s rule: splitlines_from.induct)
  case (1 cur)
  then show ?case by simp
next
  case (2 cur c)
  then show ?case by simp
next
  case (3 cur c d cs)
  show ?case
  proof (cases "c = 13 \<and> d = 10")
    case True
    have "\<forall>l \<in> set (splitlines_from [] cs). \<forall>c \<in> set l. \<not> is_linebreak c"
      using "3.IH"(1) [OF True] by simp
    moreover have "splitlines_from cur (c # d # cs) = rev cur # splitlines_from [] cs"
      using True by simp
    ultimately show ?thesis using "3.prems" by simp
  next
    case False
    show ?thesis
    proof (cases "is_linebreak c")
      case True
      have "\<forall>l \<in> set (splitlines_from [] (d # cs)). \<forall>c \<in> set l. \<not> is_linebreak c"
        using "3.IH"(2) [OF False True] by simp
      moreover have "splitlines_from cur (c # d # cs) = rev cur # splitlines_from [] (d # cs)"
        using False True by auto
      ultimately show ?thesis using "3.prems" by simp
    next
      case nl: False
      have "\<forall>x \<in> set (c # cur). \<not> is_linebreak x" using "3.prems" nl by simp
      then have "\<forall>l \<in> set (splitlines_from (c # cur) (d # cs)). \<forall>c \<in> set l. \<not> is_linebreak c"
        by (rule "3.IH"(3) [OF False nl])
      moreover have "splitlines_from cur (c # d # cs) = splitlines_from (c # cur) (d # cs)"
        using False nl by auto
      ultimately show ?thesis by simp
    qed
  qed
qed

lemma splitlines_no_linebreak:
  "l \<in> set (splitlines s) \<Longrightarrow> c \<in> set l \<Longrightarrow> \<not> is_linebreak c"
  using splitlines_from_no_linebreak [of "[]" s] by (simp add: splitlines_def)

lemma splitlines_from_end:
  "\<forall>c \<in> set l. \<not> is_linebreak c \<Longrightarrow> rev cur @ l \<noteq> [] \<Longrightarrow>
   splitlines_from cur l = [rev cur @ l]"
proof (induction l arbitrary: cur)
  case Nil
  then show ?case by simp
next
  case (Cons c l)
  then show ?case by (simp add: splitlines_from_Cons is_linebreak_def)
qed

lemma splitlines_from_line:
  "\<forall>c \<in> set l. \<not> is_linebreak c \<Longrightarrow>
   splitlines_from cur (l @ 10 # s) = (rev cur @ l) # splitlines_from [] s"
proof (induction l arbitrary: cur)
  case Nil
  show ?case by (simp add: splitlines_from_Cons is_linebreak_def)
next
  case (Cons c l)
  then show ?case by (simp add: splitlines_from_Cons is_linebreak_def)
qed

lemma splitlines_join:
  "ls \<noteq> [] \<Longrightarrow> \<forall>l \<in> set ls. l \<noteq> [] \<and> (\<forall>c \<in> set l. \<not> is_linebreak c) \<Longrightarrow>
   splitlines (join [10] ls) = ls"
proof (induction ls rule: induct_list012)
  case 1
  then show ?case by simp
next
  case (2 x)
  then show ?case using splitlines_from_end [of x "[]"] by (simp add: splitlines_def)
next
  case (3 x y zs)
  have "splitlines_from [] (x @ 10 # join [10] (y # zs))
          = x # splitlines_from [] (join [10] (y # zs))"
    using splitlines_from_line [of x "[]" "join [10] (y # zs)"] 3(4) by simp
  moreover have "splitlines_from [] (join [10] (y # zs)) = y # zs"
    using 3 by (simp add: splitlines_def)
  ultimately show ?case by (simp add: splitlines_def)
qed

subsection \<open>The entries the parser produces\<close>

lemma set_dict_set: "set (dict_set k v d) \<subseteq> insert (k, v) (set d)"
  by (induction d) (auto split: if_splits)

lemma flat_entry_of_line:
  assumes "\<forall>c \<in> set line. \<not> is_linebreak c"
  shows "flat_entry (strip (takeWhile (\<lambda>c. c \<noteq> 58) line),
                     strip (tl (dropWhile (\<lambda>c. c \<noteq> 58) line)))"
proof -
  let ?k = "takeWhile (\<lambda>c. c \<noteq> 58) line"
  let ?v = "tl (dropWhile (\<lambda>c. c \<noteq> 58) line)"
  have k: "set ?k \<subseteq> set line" "58 \<notin> set ?k"
    using set_takeWhileD by fastforce+
  have "set (dropWhile (\<lambda>c. c \<noteq> 58) line) \<subseteq> set line"
    using set_dropWhileD by fastforce
  then have v: "set ?v \<subseteq> set line"
    by (metis list.sel(2) list.set_sel(2) subset_code(1))
  have "58 \<notin> set (strip ?k)" using k(2) set_strip by blast
  moreover have "\<forall>c \<in> set (strip ?k @ strip ?v). \<not> is_linebreak c"
    using assms k(1) v set_strip by (metis Un_iff set_append subset_iff)
  ultimately show ?thesis by (simp add: flat_entry_def stripped_strip)
qed

lemma parse_lines_flat:
  assumes "\<forall>l \<in> set ls. \<forall>c \<in> set l. \<not> is_linebreak c"
    and "distinct (map fst acc)" and "\<forall>kv \<in> set acc. flat_entry kv"
    and "parse_lines ls acc = Inr fm"
  shows "distinct (map fst fm) \<and> (\<forall>kv \<in> set fm. flat_entry kv)"
  using assms
proof (induction ls arbitrary: acc)
  case Nil
  then show ?case by simp
next
  case (Cons line ls)
  show ?case
  proof (cases "58 \<in> set line")
    case False
    then have "parse_lines ls acc = Inr fm" using Cons.prems(4) by simp
    then show ?thesis using Cons.IH [of acc] Cons.prems by simp
  next
    case True
    let ?k = "strip (takeWhile (\<lambda>c. c \<noteq> 58) line)"
    let ?v = "strip (tl (dropWhile (\<lambda>c. c \<noteq> 58) line))"
    have p: "parse_lines ls (dict_set ?k ?v acc) = Inr fm"
      using Cons.prems(4) True by (simp add: split1_two)
    have "flat_entry (?k, ?v)" using Cons.prems(1) by (simp add: flat_entry_of_line)
    then have f: "\<forall>kv \<in> set (dict_set ?k ?v acc). flat_entry kv"
      using Cons.prems(3) set_dict_set [of ?k ?v acc] by auto
    have d: "distinct (map fst (dict_set ?k ?v acc))"
      using Cons.prems(2) by (rule distinct_dict_set)
    show ?thesis using Cons.IH [OF _ d f p] Cons.prems(1) by simp
  qed
qed

lemma extract_frontmatter_flat:
  assumes "extract_frontmatter text = Inr (fm, body)"
  shows "distinct (map fst fm) \<and> (\<forall>kv \<in> set fm. flat_entry kv)"
proof (cases "re_match_frontmatter text")
  case None
  then have "fm = []" using assms by (simp add: extract_frontmatter_def)
  then show ?thesis by simp
next
  case (Some m)
  obtain g after where m: "m = (g, after)" by (cases m)
  have p: "parse_lines (splitlines g) [] = Inr fm"
    using assms Some m by (simp add: extract_frontmatter_def Let_def split: sum.splits)
  have "\<forall>l \<in> set (splitlines g). \<forall>c \<in> set l. \<not> is_linebreak c"
    using splitlines_no_linebreak by blast
  then show ?thesis using parse_lines_flat [OF _ _ _ p] by simp
qed

lemma split1_entry_line:
  "58 \<notin> set k \<Longrightarrow> split1 58 (entry_line (k, v)) = [k, 32 # v]"
proof -
  assume "58 \<notin> set k"
  then have k: "\<And>c. c \<in> set k \<Longrightarrow> c \<noteq> 58" by blast
  have "takeWhile (\<lambda>c. c \<noteq> 58) (k @ 58 # 32 # v) = k"
    using k by (simp add: takeWhile_append2)
  moreover have "dropWhile (\<lambda>c. c \<noteq> 58) (k @ 58 # 32 # v) = 58 # 32 # v"
    using k by (simp add: dropWhile_append2)
  ultimately show ?thesis by (simp add: entry_line_def split1_def U_def)
qed

lemma parse_lines_entry_lines:
  assumes "distinct (map fst (acc @ kvs))" and "\<forall>kv \<in> set kvs. flat_entry kv"
  shows "parse_lines (map entry_line kvs) acc = Inr (acc @ kvs)"
  using assms
proof (induction kvs arbitrary: acc)
  case Nil
  then show ?case by simp
next
  case (Cons kv kvs)
  obtain k v where kv: "kv = (k, v)" by (cases kv)
  have f: "58 \<notin> set k" "stripped k" "stripped v"
    using Cons.prems(2) kv by (simp_all add: flat_entry_def)
  have c: "58 \<in> set (entry_line (k, v))" by (simp add: entry_line_def U_def)
  have sk: "strip k = k" using f(2) by (rule strip_stripped)
  have sv: "strip (32 # v) = v"
    using f(3) by (simp add: strip_space_Cons is_space_def strip_stripped)
  have "k \<notin> fst ` set acc" using Cons.prems(1) kv by auto
  then have ds: "dict_set k v acc = acc @ [(k, v)]" by (rule dict_set_new)
  have "parse_lines (map entry_line (kv # kvs)) acc = parse_lines (map entry_line kvs) (acc @ [(k, v)])"
    using c f(1) by (simp add: kv split1_entry_line sk sv ds)
  also have "\<dots> = Inr ((acc @ [(k, v)]) @ kvs)"
    using Cons.IH [of "acc @ [(k, v)]"] Cons.prems kv by simp
  finally show ?case by (simp add: kv)
qed

subsection \<open>Matching a serialized block\<close>

lemma find_close_line:
  "10 \<notin> set l \<Longrightarrow>
   find_close (l @ 10 # s) =
     (if startswith s (U ''---'') then Some (l, drop 3 s)
      else map_option (\<lambda>(g, rest). (l @ 10 # g, rest)) (find_close s))"
proof (induction l)
  case Nil
  show ?case
    by (simp add: startswith_Cons numeral_3_eq_3 option.map_comp comp_def
        split_def cong: option.map_cong)
next
  case (Cons c l)
  then show ?case
    by (simp add: startswith_Cons option.map_comp comp_def split_def)
qed

lemma entry_line_no_newline: "flat_entry kv \<Longrightarrow> 10 \<notin> set (entry_line kv)"
  by (auto simp add: flat_entry_def entry_line_def U_def is_linebreak_def)

lemma entry_line_not_delimiter:
  "\<not> startswith (fst kv) (U ''---'') \<Longrightarrow> \<not> startswith (entry_line kv @ s) (U ''---'')"
proof -
  assume n: "\<not> startswith (fst kv) (U ''---'')"
  obtain k v where kv: "kv = (k, v)" by (cases kv)
  show ?thesis
  proof (cases k)
    case Nil
    then show ?thesis by (simp add: kv entry_line_def startswith_def U_def)
  next
    case a: (Cons a k1)
    show ?thesis
    proof (cases k1)
      case Nil
      then show ?thesis by (simp add: kv a entry_line_def startswith_def U_def)
    next
      case b: (Cons b k2)
      show ?thesis
      proof (cases k2)
        case Nil
        then show ?thesis by (simp add: kv a b entry_line_def startswith_def U_def)
      next
        case (Cons c k3)
        then show ?thesis using n by (simp add: kv a b entry_line_def startswith_def U_def)
      qed
    qed
  qed
qed

lemma find_close_entries:
  assumes "\<forall>kv \<in> set (kv # kvs). flat_entry kv"
    and "\<forall>kv \<in> set kvs. \<not> startswith (fst kv) (U ''---'')"
  shows "find_close (concat (map (\<lambda>kv. entry_line kv @ [10]) (kv # kvs)) @ U ''---'' @ tail)
           = Some (join [10] (map entry_line (kv # kvs)), tail)"
  using assms
proof (induction kvs arbitrary: kv)
  case Nil
  have "10 \<notin> set (entry_line kv)" using Nil.prems(1) by (simp add: entry_line_no_newline)
  then show ?case
    using find_close_line [of "entry_line kv" "U ''---'' @ tail"]
    by (simp add: startswith_append_same) (simp add: U_def)
next
  case (Cons kv' kvs)
  let ?s = "concat (map (\<lambda>kv. entry_line kv @ [10]) (kv' # kvs)) @ U ''---'' @ tail"
  have n: "10 \<notin> set (entry_line kv)" using Cons.prems(1) by (simp add: entry_line_no_newline)
  have "\<not> startswith (entry_line kv' @ 10 # concat (map (\<lambda>kv. entry_line kv @ [10]) kvs)
            @ U ''---'' @ tail) (U ''---'')"
    using Cons.prems(2) by (simp add: entry_line_not_delimiter)
  then have d: "\<not> startswith ?s (U ''---'')" by simp
  have ih: "find_close ?s = Some (join [10] (map entry_line (kv' # kvs)), tail)"
    using Cons.IH [of kv'] Cons.prems by simp
  have "find_close (entry_line kv @ 10 # ?s)
          = Some (entry_line kv @ 10 # join [10] (map entry_line (kv' # kvs)), tail)"
    using find_close_line [OF n, of ?s] d ih by simp
  then show ?case by simp
qed

lemma entry_line_first_not_space:
  assumes "flat_entry kv"
  shows "\<exists>c cs. entry_line kv = c # cs \<and> \<not> is_space c"
proof -
  obtain k v where kv: "kv = (k, v)" by (cases kv)
  show ?thesis
  proof (cases k)
    case Nil
    then show ?thesis by (simp add: kv entry_line_def U_def is_space_def)
  next
    case (Cons a k')
    then have "\<not> is_space a" using assms kv by (simp add: flat_entry_def stripped_def)
    then show ?thesis using Cons by (simp add: kv entry_line_def)
  qed
qed

lemma entry_line_nonempty_flat:
  "flat_entry kv \<Longrightarrow> entry_line kv \<noteq> [] \<and> (\<forall>c \<in> set (entry_line kv). \<not> is_linebreak c)"
  by (auto simp add: flat_entry_def entry_line_def U_def is_linebreak_def)

lemma re_match_serialize:
  assumes "\<forall>kv \<in> set (kv # kvs). flat_entry kv"
    and "\<forall>kv \<in> set kvs. \<not> startswith (fst kv) (U ''---'')"
  shows "re_match_frontmatter (serialize_frontmatter (kv # kvs))
           = Some (join [10] (map entry_line (kv # kvs)), [])"
proof -
  let ?b = "concat (map (\<lambda>kv. entry_line kv @ [10]) (kv # kvs)) @ U ''---'' @ [10]"
  obtain c cs where c: "entry_line kv = c # cs" "\<not> is_space c"
    using entry_line_first_not_space assms(1) by (meson list.set_intros(1))
  have b: "?b = c # cs @ 10 # concat (map (\<lambda>kv. entry_line kv @ [10]) kvs) @ U ''---'' @ [10]"
    by (simp add: c(1))
  have c10: "c \<noteq> 10" using c(2) by (auto simp add: is_space_def)
  have s: "serialize_frontmatter (kv # kvs) = U ''---'' @ 10 # ?b"
    by (simp add: serialize_frontmatter_def)
  have sw: "startswith (serialize_frontmatter (kv # kvs)) (U ''---'')"
    unfolding s by (rule startswith_append_same)
  have r: "drop 3 (serialize_frontmatter (kv # kvs)) = 10 # ?b"
    unfolding s by (simp add: U_def)
  have ws: "takeWhile is_space (10 # ?b) = [10]"
    unfolding b using c(2) by (simp add: is_space_def)
  have fc: "find_close ?b = Some (join [10] (map entry_line (kv # kvs)), [10])"
    using find_close_entries [OF assms, of "[10]"] by simp
  have "try_open (Suc 0) (10 # ?b) = try_open 0 (10 # ?b)"
    unfolding b using c10 by simp
  also have "\<dots> = find_close ?b" by simp
  finally have t: "try_open (Suc 0) (10 # ?b) = Some (join [10] (map entry_line (kv # kvs)), [10])"
    using fc by simp
  have len: "length (takeWhile is_space (10 # ?b)) = Suc 0" by (simp only: ws) simp
  have sp: "dropWhile is_space [10] = []" by (simp add: is_space_def)
  have "re_match_frontmatter (serialize_frontmatter (kv # kvs))
          = (case try_open (length (takeWhile is_space (10 # ?b))) (10 # ?b) of
               None \<Rightarrow> None
             | Some (g, rest) \<Rightarrow> Some (g, dropWhile is_space rest))"
    unfolding re_match_frontmatter_def r Let_def using sw by (simp only: if_True)
  also have "\<dots> = Some (join [10] (map entry_line (kv # kvs)), dropWhile is_space [10])"
    unfolding len t by (simp only: option.case prod.case)
  finally show ?thesis unfolding sp .
qed

lemma extract_serialize_empty:
  "extract_frontmatter (serialize_frontmatter []) = Inr ([], serialize_frontmatter [])"
  by (simp add: serialize_frontmatter_def parse_defs)

text \<open>
  Claim C6, as stated, fails. The block with the two indented lines \<open> ---a: 1\<close> and
  \<open> ---b: 2\<close> parses to a mapping with the keys \<open>---a\<close> and \<open>---b\<close>. Written back, in
  either order of the two entries, the second entry starts a line with \<open>---\<close>, which
  closes the block: parsing again yields one entry only.
\<close>

theorem frontmatter_round_trip_fails:
  "extract_frontmatter (U ''---\<newline> ---a: 1\<newline> ---b: 2\<newline>---\<newline>'')
     = Inr ([(U ''---a'', U ''1''), (U ''---b'', U ''2'')], []) \<and>
   extract_frontmatter (serialize_frontmatter [(U ''---a'', U ''1''), (U ''---b'', U ''2'')])
     = Inr ([(U ''---a'', U ''1'')], U ''b: 2\<newline>---'') \<and>
   extract_frontmatter (serialize_frontmatter [(U ''---b'', U ''2''), (U ''---a'', U ''1'')])
     = Inr ([(U ''---b'', U ''2'')], U ''a: 1\<newline>---'')"
  by (simp add: serialize_frontmatter_def entry_line_def parse_defs)

text \<open>
  Claim C6, amended. For every text the parser takes a mapping from, provided no key
  other than the first begins with \<open>---\<close>: writing the mapping back as \<open>key: value\<close> lines
  between \<open>---\<close> lines, in the order of the mapping, and parsing again yields the same
  mapping, keys and values unchanged and in the same order.
\<close>

theorem frontmatter_round_trip:
  assumes "extract_frontmatter text = Inr (fm, body)"
    and "\<forall>kv \<in> set (tl fm). \<not> startswith (fst kv) (U ''---'')"
  shows "\<exists>body'. extract_frontmatter (serialize_frontmatter fm) = Inr (fm, body')"
proof (cases fm)
  case Nil
  then show ?thesis using extract_serialize_empty by simp
next
  case (Cons kv kvs)
  have flat: "distinct (map fst fm)" "\<forall>kv \<in> set fm. flat_entry kv"
    using extract_frontmatter_flat [OF assms(1)] by simp_all
  have m: "re_match_frontmatter (serialize_frontmatter fm)
             = Some (join [10] (map entry_line fm), [])"
    using re_match_serialize [of kv kvs] flat(2) assms(2) Cons by simp
  have "\<forall>l \<in> set (map entry_line fm). l \<noteq> [] \<and> (\<forall>c \<in> set l. \<not> is_linebreak c)"
    using flat(2) entry_line_nonempty_flat by auto
  then have l: "splitlines (join [10] (map entry_line fm)) = map entry_line fm"
    using splitlines_join [of "map entry_line fm"] Cons by simp
  have p: "parse_lines (map entry_line fm) [] = Inr fm"
    using parse_lines_entry_lines [of "[]" fm] flat by simp
  show ?thesis by (simp add: extract_frontmatter_def m l p)
qed

text \<open>The frontmatter of the example note.\<close>

theorem frontmatter_round_trip_witness:
  "extract_frontmatter example_note = Inr (example_frontmatter, U ''Followed up.'') \<and>
   \<not> list_ex (\<lambda>kv. startswith (fst kv) (U ''---'')) (tl example_frontmatter) \<and>
   (\<exists>body'. extract_frontmatter (serialize_frontmatter example_frontmatter)
              = Inr (example_frontmatter, body'))"
proof -
  have k: "\<forall>kv \<in> set (tl example_frontmatter). \<not> startswith (fst kv) (U ''---'')"
    by (simp add: example_frontmatter_def startswith_def U_def)
  have k': "\<not> list_ex (\<lambda>kv. startswith (fst kv) (U ''---'')) (tl example_frontmatter)"
    using k by (simp add: list_ex_iff)
  show ?thesis
    using extract_example_note k' frontmatter_round_trip [OF extract_example_note k]
    by (intro conjI)
qed

end
